theory Spec2Isabelle
  imports Complex_Main "HOL-Library.Log_Nat"
begin

section \<open>Python values used by app.py\<close>

text \<open>
  The exceptions the program can raise. \<open>DecodeError\<close> stands for whatever
  \<open>convert_from_path\<close> raises on a file it cannot rasterize; the others are Python's own.
\<close>

datatype error = DecodeError | IndexError | TypeError | ZeroDivisionError | OverflowError

subsection \<open>Floats\<close>

text \<open>
  A finite Python float is an IEEE-754 binary64 number, hence a rational. Every float
  operation of app.py takes finite operands and rounds the exact result to the nearest
  double, ties to even. \<open>exponent x\<close> is the binary exponent \<open>e\<close> with
  \<open>2^e \<le> |x| < 2^(e+1)\<close>, \<open>round_double\<close> rounds to 53 significant bits (to a multiple of
  \<open>2^-1074\<close> in the subnormal range) with the exponent unbounded above, and a rounded
  magnitude of \<open>2^1024\<close> or more is an overflow.
\<close>

definition exponent :: "rat \<Rightarrow> int" where
  "exponent x =
     (let a = fst (quotient_of \<bar>x\<bar>); b = snd (quotient_of \<bar>x\<bar>); d = bitlen a - bitlen b
      in if 2 powi d \<le> \<bar>x\<bar> then d else d - 1)"

definition round_half_even :: "rat \<Rightarrow> int" where
  "round_half_even x =
     (let f = \<lfloor>x\<rfloor>; r = x - of_int f
      in if r < 1 / 2 then f else if 1 / 2 < r then f + 1 else if even f then f else f + 1)"

definition round_double :: "rat \<Rightarrow> rat" where
  "round_double x =
     (if x = 0 then 0
      else let q = 2 powi (max (exponent x - 52) (- 1074))
           in of_int (round_half_even (x / q)) * q)"

datatype float = Finite rat | PosInf | NegInf

definition to_float :: "rat \<Rightarrow> float" where
  "to_float x =
     (let r = round_double x
      in if 2 ^ 1024 \<le> r then PosInf else if r \<le> - (2 ^ 1024) then NegInf else Finite r)"

text \<open>\<open>a / b\<close> on two ints: correctly rounded, raising on a zero divisor or an overflow.\<close>

definition py_truediv :: "int \<Rightarrow> int \<Rightarrow> error + rat" where
  "py_truediv a b =
     (if b = 0 then Inl ZeroDivisionError
      else case to_float (of_int a / of_int b) of
             Finite r \<Rightarrow> Inr r
           | _ \<Rightarrow> Inl OverflowError)"

text \<open>The conversion of an int operand in a mixed int/float expression.\<close>

definition py_float :: "int \<Rightarrow> error + rat" where
  "py_float a =
     (case to_float (of_int a) of
        Finite r \<Rightarrow> Inr r
      | _ \<Rightarrow> Inl OverflowError)"

text \<open>Float product and difference of finite operands: an overflow yields an infinity.\<close>

definition float_mul :: "rat \<Rightarrow> rat \<Rightarrow> float" where
  "float_mul a b = to_float (a * b)"

definition float_sub :: "rat \<Rightarrow> rat \<Rightarrow> float" where
  "float_sub a b = to_float (a - b)"

text \<open>\<open>int(f)\<close> truncates towards zero and raises on an infinity.\<close>

definition py_int :: "float \<Rightarrow> error + int" where
  "py_int f =
     (case f of
        Finite r \<Rightarrow> Inr (if 0 \<le> r then \<lfloor>r\<rfloor> else \<lceil>r\<rceil>)
      | _ \<Rightarrow> Inl OverflowError)"

subsection \<open>Formatting an int, as an f-string does\<close>

function str_nat :: "nat \<Rightarrow> string" where
  "str_nat n =
     (if n < 10 then [char_of (48 + n)]
      else str_nat (n div 10) @ [char_of (48 + n mod 10)])"
  by pat_completeness auto
termination
  by (relation "measure (\<lambda>n. n)") auto

declare str_nat.simps [simp del]

definition str_int :: "int \<Rightarrow> string" where
  "str_int i = (if i < 0 then CHR ''-'' # str_nat (nat (- i)) else str_nat (nat i))"

section \<open>The toolkit's value types\<close>

datatype QPoint = QPoint (point_x: int) (point_y: int)

text \<open>\<open>QPoint()\<close> is the point (0, 0), and \<open>isNull\<close> holds of exactly that point.\<close>

definition QPoint_default :: QPoint where
  "QPoint_default = QPoint 0 0"

definition isNull :: "QPoint \<Rightarrow> bool" where
  "isNull p = (point_x p = 0 \<and> point_y p = 0)"

text \<open>\<open>QRect(topLeft, bottomRight)\<close> keeps the two corners it is given.\<close>

datatype QRect = QRect (topLeft: QPoint) (bottomRight: QPoint)

datatype MouseButton = NoButton | LeftButton | RightButton | MiddleButton

datatype event_type = MouseButtonPress | MouseMove | MouseButtonRelease

text \<open>
  A mouse event: its kind, the button that caused it, the buttons held down once the event
  has happened (\<open>buttons()\<close>) and the pointer position in widget coordinates.
\<close>

record QMouseEvent =
  kind :: event_type
  button :: MouseButton
  buttons :: "MouseButton set"
  pos :: QPoint

text \<open>
  The page image the rasterizer yields, and the pixmap the canvas keeps. The pixel content
  is kept as the payload it was loaded from together with the rectangles painted into it
  since, oldest first.
\<close>

record PpmImageFile =
  image_width :: int
  image_height :: int
  image_data :: "nat list"

record QPixmap =
  pixmap_width :: int
  pixmap_height :: int
  pixmap_data :: "nat list"
  painted :: "QRect list"

definition fromImage :: "PpmImageFile \<Rightarrow> QPixmap" where
  "fromImage img =
     \<lparr>pixmap_width = image_width img, pixmap_height = image_height img,
      pixmap_data = image_data img, painted = []\<rparr>"

section \<open>PdfToImage\<close>

record PdfToImage =
  images :: "PpmImageFile list"

text \<open>
  \<open>convert_from_path\<close> belongs to pdf2image: it is a parameter, a function from the path to
  the pages or to the exception raised. The resolution is the constructor's default, 200.
\<close>

definition PdfToImage_init :: "(string \<Rightarrow> int \<Rightarrow> error + PpmImageFile list) \<Rightarrow> string \<Rightarrow> error + PdfToImage" where
  "PdfToImage_init convert_from_path path_to_pdf =
     (case convert_from_path path_to_pdf 200 of
        Inl e \<Rightarrow> Inl e
      | Inr pages \<Rightarrow> Inr \<lparr>images = pages\<rparr>)"

text \<open>\<open>self.images[item]\<close> on a Python list with an int index.\<close>

definition getitem :: "PdfToImage \<Rightarrow> int \<Rightarrow> error + PpmImageFile" where
  "getitem self item =
     (let n = int (length (images self))
      in if 0 \<le> item \<and> item < n then Inr (images self ! nat item)
         else if - n \<le> item \<and> item < 0 then Inr (images self ! nat (n + item))
         else Inl IndexError)"

definition len :: "PdfToImage \<Rightarrow> int" where
  "len self = int (length (images self))"

section \<open>Canvas\<close>

text \<open>
  The fields the class assigns, and the widget's own size, which \<open>self.rect()\<close>,
  \<open>self.width()\<close> and \<open>self.height()\<close> read. The field \<open>begin\<close> is spelt \<open>begin_point\<close>.
\<close>

record Canvas =
  begin_point :: QPoint
  destination :: QPoint
  pixmap :: QPixmap
  canvas_width :: int
  canvas_height :: int

text \<open>The pixmap of welcome.png and the widget size come from outside the class.\<close>

definition Canvas_init :: "QPixmap \<Rightarrow> int \<Rightarrow> int \<Rightarrow> Canvas" where
  "Canvas_init welcome w h =
     \<lparr>begin_point = QPoint_default, destination = QPoint_default, pixmap = welcome,
      canvas_width = w, canvas_height = h\<rparr>"

definition reload :: "Canvas \<Rightarrow> PpmImageFile \<Rightarrow> Canvas" where
  "reload self img = self\<lparr>pixmap := fromImage img\<rparr>"

text \<open>\<open>int(c * ratio)\<close> with an int \<open>c\<close> and a float \<open>ratio\<close>.\<close>

definition int_of_product :: "int \<Rightarrow> rat \<Rightarrow> error + int" where
  "int_of_product c ratio =
     (case py_float c of
        Inl e \<Rightarrow> Inl e
      | Inr f \<Rightarrow> py_int (float_mul f ratio))"

definition calculate_size_of_page :: "Canvas \<Rightarrow> int \<Rightarrow> int \<Rightarrow> error + int \<times> int" where
  "calculate_size_of_page self width_page height_page =
     (let width_canvas = canvas_width self; height_canvas = canvas_height self
      in if width_page \<le> width_canvas \<and> height_page \<le> height_canvas
         then Inr (width_page, height_page)
         else if width_page > height_page
         then (case py_truediv height_page width_page of
                 Inl e \<Rightarrow> Inl e
               | Inr ratio \<Rightarrow>
                   (case int_of_product width_canvas ratio of
                      Inl e \<Rightarrow> Inl e
                    | Inr h \<Rightarrow> Inr (width_canvas, h)))
         else (case py_truediv width_page height_page of
                 Inl e \<Rightarrow> Inl e
               | Inr ratio \<Rightarrow>
                   (case int_of_product height_canvas ratio of
                      Inl e \<Rightarrow> Inl e
                    | Inr w \<Rightarrow> Inr (w, height_canvas))))"

text \<open>\<open>abs(int((c / 2) - (d / 2)))\<close> with ints \<open>c\<close> and \<open>d\<close>.\<close>

definition half_gap :: "int \<Rightarrow> int \<Rightarrow> error + int" where
  "half_gap c d =
     (case py_truediv c 2 of
        Inl e \<Rightarrow> Inl e
      | Inr half_c \<Rightarrow>
          (case py_truediv d 2 of
             Inl e \<Rightarrow> Inl e
           | Inr half_d \<Rightarrow>
               (case py_int (float_sub half_c half_d) of
                  Inl e \<Rightarrow> Inl e
                | Inr g \<Rightarrow> Inr \<bar>g\<bar>)))"

definition calculate_zero_coordinates :: "Canvas \<Rightarrow> int \<Rightarrow> int \<Rightarrow> error + int \<times> int" where
  "calculate_zero_coordinates self w h =
     (let width_canvas = canvas_width self; height_canvas = canvas_height self
      in if w \<le> width_canvas \<and> h \<le> height_canvas
         then (case half_gap (canvas_width self) w of
                 Inl e \<Rightarrow> Inl e
               | Inr x \<Rightarrow>
                   (case half_gap (canvas_height self) h of
                      Inl e \<Rightarrow> Inl e
                    | Inr y \<Rightarrow> Inr (x, y)))
         else if w < h
         then (case half_gap (canvas_width self) w of
                 Inl e \<Rightarrow> Inl e
               | Inr x \<Rightarrow> Inr (x, 0))
         else (case half_gap (canvas_height self) h of
                 Inl e \<Rightarrow> Inl e
               | Inr y \<Rightarrow> Inr (0, y)))"

text \<open>
  What a repaint sends to the painter, in order. \<open>QRect.normalized\<close> is the toolkit's and
  is a parameter of the two methods that call it.
\<close>

datatype paint_op = DrawPixmap int int int int QPixmap | DrawRect QRect

definition paintEvent :: "(QRect \<Rightarrow> QRect) \<Rightarrow> Canvas \<Rightarrow> error + paint_op list" where
  "paintEvent normalized self =
     (case calculate_size_of_page self (pixmap_width (pixmap self)) (pixmap_height (pixmap self)) of
        Inl e \<Rightarrow> Inl e
      | Inr (width_image, height_image) \<Rightarrow>
          (case calculate_zero_coordinates self width_image height_image of
             Inl e \<Rightarrow> Inl e
           | Inr (x, y) \<Rightarrow>
               Inr (DrawPixmap x y width_image height_image (pixmap self) #
                    (if \<not> isNull (begin_point self) \<and> \<not> isNull (destination self)
                     then [DrawRect (normalized (QRect (begin_point self) (destination self)))]
                     else []))))"

definition mousePressEvent :: "Canvas \<Rightarrow> QMouseEvent \<Rightarrow> Canvas" where
  "mousePressEvent self event =
     (if LeftButton \<in> buttons event
      then self\<lparr>begin_point := pos event, destination := pos event\<rparr>
      else self)"

definition mouseMoveEvent :: "Canvas \<Rightarrow> QMouseEvent \<Rightarrow> Canvas" where
  "mouseMoveEvent self event =
     (if LeftButton \<in> buttons event
      then self\<lparr>destination := pos event\<rparr>
      else self)"

definition mouseRleaseEvent :: "(QRect \<Rightarrow> QRect) \<Rightarrow> Canvas \<Rightarrow> QMouseEvent \<Rightarrow> Canvas" where
  "mouseRleaseEvent normalized self event =
     (if LeftButton \<in> buttons event
      then self\<lparr>pixmap := (pixmap self)
                  \<lparr>painted := painted (pixmap self) @
                     [normalized (QRect (begin_point self) (destination self))]\<rparr>,
                begin_point := QPoint_default, destination := QPoint_default\<rparr>
      else self)"

text \<open>
  The handler the class inherits for a release: the class defines none under the name
  \<open>mouseReleaseEvent\<close>, and the inherited one leaves the fields of Canvas alone.
\<close>

definition mouseReleaseEvent :: "Canvas \<Rightarrow> QMouseEvent \<Rightarrow> Canvas" where
  "mouseReleaseEvent self event = self"

text \<open>
  The toolkit delivers a mouse event to the widget's virtual handler of that kind, found
  by its name.
\<close>

definition deliver :: "Canvas \<Rightarrow> QMouseEvent \<Rightarrow> Canvas" where
  "deliver self event =
     (case kind event of
        MouseButtonPress \<Rightarrow> mousePressEvent self event
      | MouseMove \<Rightarrow> mouseMoveEvent self event
      | MouseButtonRelease \<Rightarrow> mouseReleaseEvent self event)"

fun deliver_all :: "Canvas \<Rightarrow> QMouseEvent list \<Rightarrow> Canvas" where
  "deliver_all self [] = self"
| "deliver_all self (event # events) = deliver_all (deliver self event) events"

section \<open>Window\<close>

text \<open>
  The fields of the controller. A button is kept as its enabled flag and the page label as
  its text. The fields \<open>begin\<close> and \<open>destination\<close> the constructor also assigns are
  spelt \<open>window_begin\<close> and \<open>window_destination\<close>.
\<close>

record Window =
  pdf :: "PdfToImage option"
  filename :: string
  current_page :: int
  window_begin :: QPoint
  window_destination :: QPoint
  label_pages :: string
  button_prev_page :: bool
  button_next_page :: bool
  canvas :: Canvas

definition Window_init :: "QPixmap \<Rightarrow> int \<Rightarrow> int \<Rightarrow> Window" where
  "Window_init welcome w h =
     \<lparr>pdf = None, filename = [], current_page = 0,
      window_begin = QPoint_default, window_destination = QPoint_default,
      label_pages = ''0 / 0'', button_prev_page = False, button_next_page = False,
      canvas = Canvas_init welcome w h\<rparr>"

text \<open>
  A method that raises leaves the fields as they were at the raise: its result is either
  the exception with the window at that moment, or the window it returns with.
\<close>

definition read_pdf ::
  "(string \<Rightarrow> int \<Rightarrow> error + PpmImageFile list) \<Rightarrow> Window \<Rightarrow> string \<Rightarrow> error \<times> Window + Window" where
  "read_pdf convert_from_path self path =
     (case PdfToImage_init convert_from_path path of
        Inl e \<Rightarrow> Inl (e, self)
      | Inr document \<Rightarrow> Inr (self\<lparr>pdf := Some document\<rparr>))"

definition display_page :: "Window \<Rightarrow> int \<Rightarrow> error \<times> Window + Window" where
  "display_page self page =
     (case pdf self of
        None \<Rightarrow> Inl (TypeError, self)
      | Some document \<Rightarrow>
          (case getitem document page of
             Inl e \<Rightarrow> Inl (e, self)
           | Inr img \<Rightarrow>
               Inr (self\<lparr>canvas := reload (canvas self) img,
                         button_next_page := True,
                         label_pages := str_int (current_page self + 1) @ '' / '' @
                                        str_int (len document)\<rparr>)))"

text \<open>
  The file dialog is outside the program: \<open>chosen\<close> is the path it returns, empty when the
  user cancels.
\<close>

definition select_file ::
  "(string \<Rightarrow> int \<Rightarrow> error + PpmImageFile list) \<Rightarrow> Window \<Rightarrow> string \<Rightarrow> error \<times> Window + Window" where
  "select_file convert_from_path self chosen =
     (if chosen \<noteq> []
      then (case read_pdf convert_from_path
                   (self\<lparr>filename := chosen, current_page := 0\<rparr>) chosen of
              Inl raised \<Rightarrow> Inl raised
            | Inr self' \<Rightarrow> display_page self' 0)
      else Inr self)"

definition display_next_page :: "Window \<Rightarrow> error \<times> Window + Window" where
  "display_next_page self =
     (case display_page (self\<lparr>current_page := current_page self + 1\<rparr>) (current_page self + 1) of
        Inl raised \<Rightarrow> Inl raised
      | Inr self' \<Rightarrow>
          (case pdf self' of
             None \<Rightarrow> Inl (TypeError, self'\<lparr>button_prev_page := True\<rparr>)
           | Some document \<Rightarrow>
               Inr (self'\<lparr>button_prev_page := True,
                          button_next_page := (current_page self' \<noteq> len document - 1)\<rparr>)))"

definition display_prev_page :: "Window \<Rightarrow> error \<times> Window + Window" where
  "display_prev_page self =
     (case display_page (self\<lparr>current_page := current_page self - 1\<rparr>) (current_page self - 1) of
        Inl raised \<Rightarrow> Inl raised
      | Inr self' \<Rightarrow>
          Inr (self'\<lparr>button_prev_page := (current_page self' \<noteq> 0),
                     button_next_page := True\<rparr>))"

text \<open>
  The controller is driven by its three signals. A disabled button emits no click, and an
  exception that leaves a handler ends the run.
\<close>

datatype command = SelectFile string | NextPage | PrevPage

definition handle ::
  "(string \<Rightarrow> int \<Rightarrow> error + PpmImageFile list) \<Rightarrow> Window \<Rightarrow> command \<Rightarrow> error \<times> Window + Window" where
  "handle convert_from_path self c =
     (case c of
        SelectFile chosen \<Rightarrow> select_file convert_from_path self chosen
      | NextPage \<Rightarrow> if button_next_page self then display_next_page self else Inr self
      | PrevPage \<Rightarrow> if button_prev_page self then display_prev_page self else Inr self)"

fun handle_all ::
  "(string \<Rightarrow> int \<Rightarrow> error + PpmImageFile list) \<Rightarrow> Window \<Rightarrow> command list \<Rightarrow> error \<times> Window + Window" where
  "handle_all convert_from_path self [] = Inr self"
| "handle_all convert_from_path self (c # cs) =
     (case handle convert_from_path self c of
        Inl raised \<Rightarrow> Inl raised
      | Inr self' \<Rightarrow> handle_all convert_from_path self' cs)"

section \<open>Events and documents used as examples\<close>

text \<open>
  The events of a plain drag with the left button: the press and the moves carry the left
  button in \<open>buttons()\<close>, the release does not, since \<open>buttons()\<close> is the state once the
  button is up.
\<close>

definition left_press :: "QPoint \<Rightarrow> QMouseEvent" where
  "left_press p = \<lparr>kind = MouseButtonPress, button = LeftButton, buttons = {LeftButton}, pos = p\<rparr>"

definition left_move :: "QPoint \<Rightarrow> QMouseEvent" where
  "left_move p = \<lparr>kind = MouseMove, button = NoButton, buttons = {LeftButton}, pos = p\<rparr>"

definition left_release :: "QPoint \<Rightarrow> QMouseEvent" where
  "left_release p = \<lparr>kind = MouseButtonRelease, button = LeftButton, buttons = {}, pos = p\<rparr>"



definition blank_pixmap :: QPixmap where
  "blank_pixmap = \<lparr>pixmap_width = 300, pixmap_height = 200, pixmap_data = [], painted = []\<rparr>"

definition blank_canvas :: Canvas where
  "blank_canvas = Canvas_init blank_pixmap 700 800"

definition page_a :: PpmImageFile where
  "page_a = \<lparr>image_width = 1654, image_height = 2339, image_data = [1]\<rparr>"

definition page_b :: PpmImageFile where
  "page_b = \<lparr>image_width = 1654, image_height = 2339, image_data = [2]\<rparr>"

text \<open>A file system with a one-page and a two-page document; any other path fails to decode.\<close>

definition two_documents :: "string \<Rightarrow> int \<Rightarrow> error + PpmImageFile list" where
  "two_documents path dpi =
     (if path = ''one.pdf'' then Inr [page_a]
      else if path = ''two.pdf'' then Inr [page_a, page_b]
      else Inl DecodeError)"

definition fresh_window :: Window where
  "fresh_window = Window_init blank_pixmap 700 800"

section \<open>Floats: what rounding keeps\<close>

text \<open>
  The binary exponent brackets the magnitude, so rounding moves a value by at most half a
  unit in the last place: by a relative \<open>2^-53\<close> in the normal range, and not at all when
  the value has a 53-bit significand.
\<close>

lemma bitlen_powi_bounds:
  assumes "0 < (a::int)"
  shows "(2::rat) powi (bitlen a - 1) \<le> of_int a" and "(of_int a :: rat) < 2 powi (bitlen a)"
proof -
  from bitlen_bounds[OF assms] have lo: "2 ^ nat (bitlen a - 1) \<le> a" and hi: "a < 2 ^ nat (bitlen a)"
    by auto
  have pos: "1 \<le> bitlen a" using assms by (simp add: bitlen_alt_def)
  have "(2::rat) powi (bitlen a - 1) = 2 ^ nat (bitlen a - 1)"
    using pos by (simp add: power_int_nonneg_exp)
  also have "\<dots> = of_int (2 ^ nat (bitlen a - 1))" by simp
  also have "\<dots> \<le> of_int a" using lo by (simp only: of_int_le_iff)
  finally show "(2::rat) powi (bitlen a - 1) \<le> of_int a" .
  have "(of_int a :: rat) < of_int (2 ^ nat (bitlen a))" using hi by (simp only: of_int_less_iff)
  also have "\<dots> = 2 ^ nat (bitlen a)" by simp
  also have "\<dots> = 2 powi (bitlen a)" using pos by (simp add: power_int_nonneg_exp)
  finally show "(of_int a :: rat) < 2 powi (bitlen a)" .
qed

lemma exponent_bounds:
  assumes "x \<noteq> 0"
  shows "2 powi (exponent x) \<le> \<bar>x\<bar>" and "\<bar>x\<bar> < 2 powi (exponent x + 1)"
proof -
  obtain a b where ab: "quotient_of \<bar>x\<bar> = (a, b)" by (cases "quotient_of \<bar>x\<bar>")
  have bpos: "0 < b" using ab by (rule quotient_of_denom_pos)
  have xeq: "\<bar>x\<bar> = of_int a / of_int b" using ab by (rule quotient_of_div)
  have "0 < \<bar>x\<bar>" using assms by simp
  then have apos: "0 < a" using xeq bpos by (simp add: zero_less_divide_iff)
  define d where "d = bitlen a - bitlen b"
  have e: "exponent x = (if 2 powi d \<le> \<bar>x\<bar> then d else d - 1)"
    by (simp add: exponent_def ab d_def Let_def)
  note A = bitlen_powi_bounds[OF apos] and B = bitlen_powi_bounds[OF bpos]
  have bq: "0 < (of_int b :: rat)" using bpos by simp
  have "(2::rat) powi (d - 1) * of_int b < 2 powi (d - 1) * 2 powi (bitlen b)"
    using B(2) by (simp)
  also have "\<dots> = 2 powi (bitlen a - 1)"
    by (simp add: d_def power_int_add[symmetric])
  also have "\<dots> \<le> of_int a" by (rule A(1))
  finally have lo: "(2::rat) powi (d - 1) < \<bar>x\<bar>"
    using bq by (simp add: xeq pos_less_divide_eq)
  have "(of_int a :: rat) < 2 powi (bitlen a)" by (rule A(2))
  also have "\<dots> = 2 powi (d + 1) * 2 powi (bitlen b - 1)"
    by (simp add: d_def power_int_add[symmetric])
  also have "\<dots> \<le> 2 powi (d + 1) * of_int b"
    using B(1) by simp
  finally have hi: "\<bar>x\<bar> < 2 powi (d + 1)"
    using bq by (simp add: xeq pos_divide_less_eq)
  show "2 powi (exponent x) \<le> \<bar>x\<bar>" using lo by (simp add: e)
  show "\<bar>x\<bar> < 2 powi (exponent x + 1)" using hi by (auto simp add: e not_le)
qed

lemma round_half_even_error: "\<bar>of_int (round_half_even y) - y\<bar> \<le> 1 / 2"
proof -
  have "of_int \<lfloor>y\<rfloor> \<le> y" "y < of_int \<lfloor>y\<rfloor> + 1" by linarith+
  then show ?thesis
    by (auto simp add: round_half_even_def Let_def)
qed

lemma round_half_even_of_int: "round_half_even (of_int n) = n"
  by (simp add: round_half_even_def)

lemma round_double_quantum_error:
  assumes "x \<noteq> 0"
  shows "\<bar>round_double x - x\<bar> \<le> 2 powi (max (exponent x - 52) (- 1074)) / 2"
proof -
  define q :: rat where "q = 2 powi (max (exponent x - 52) (- 1074))"
  have qpos: "0 < q" by (simp add: q_def)
  have rd: "round_double x = of_int (round_half_even (x / q)) * q"
    using assms by (simp add: round_double_def q_def Let_def)
  have "round_double x - x = (of_int (round_half_even (x / q)) - x / q) * q"
    using qpos by (simp add: rd field_simps)
  then have "\<bar>round_double x - x\<bar> = \<bar>of_int (round_half_even (x / q)) - x / q\<bar> * q"
    using qpos by (simp add: abs_mult)
  also have "\<dots> \<le> (1 / 2) * q"
    using round_half_even_error [of "x / q"] qpos by (intro mult_right_mono) simp_all
  finally show ?thesis by (simp add: q_def)
qed

lemma powi_less_exp: "(2::rat) powi m < 2 powi n \<Longrightarrow> m < n"
proof (rule ccontr)
  assume less: "(2::rat) powi m < 2 powi n" and "\<not> m < n"
  then have "n \<le> m" by simp
  then have "(2::rat) powi n \<le> 2 powi m" by (rule power_int_increasing) simp
  with less show False by simp
qed

lemma round_double_relative_error:
  assumes "x = 0 \<or> 2 powi (- 1022) \<le> \<bar>x\<bar>"
  shows "\<bar>round_double x - x\<bar> \<le> \<bar>x\<bar> / 2 ^ 53"
proof (cases "x = 0")
  case True
  then show ?thesis by (simp add: round_double_def)
next
  case False
  with assms have big: "(2::rat) powi (- 1022) \<le> \<bar>x\<bar>" by simp
  note E = exponent_bounds [OF False]
  from big E(2) have "(2::rat) powi (- 1022) < 2 powi (exponent x + 1)" by linarith
  then have "- 1022 < exponent x + 1"
    by (rule powi_less_exp)
  then have m: "max (exponent x - 52) (- 1074) = exponent x - 52" by simp
  have "\<bar>round_double x - x\<bar> \<le> 2 powi (exponent x - 52) / 2"
    using round_double_quantum_error [OF False] by (simp only: m)
  also have "\<dots> = 2 powi (exponent x) / 2 ^ 53"
    by (simp add: power_int_diff)
  also have "\<dots> \<le> \<bar>x\<bar> / 2 ^ 53"
    using E(1) by (simp add: divide_right_mono)
  finally show ?thesis .
qed


lemma round_double_exact:
  assumes x: "x = of_int m * 2 powi k" and m: "\<bar>m\<bar> < 2 ^ 53" and k: "- 1074 \<le> k"
  shows "round_double x = x"
proof (cases "x = 0")
  case True
  then show ?thesis by (simp add: round_double_def)
next
  case False
  define j where "j = max (exponent x - 52) (- 1074)"
  have "(of_int \<bar>m\<bar> :: rat) < of_int (2 ^ 53)" using m by (simp only: of_int_less_iff)
  then have mq: "\<bar>of_int m :: rat\<bar> < 2 ^ 53" by simp
  have "2 powi (exponent x) \<le> \<bar>x\<bar>" by (rule exponent_bounds(1) [OF False])
  also have "\<bar>x\<bar> = \<bar>of_int m\<bar> * 2 powi k" by (simp add: x abs_mult)
  also have "\<dots> < 2 ^ 53 * 2 powi k" using mq by simp
  also have "\<dots> = 2 powi (53 + k)" by (simp add: power_int_add)
  finally have "exponent x < 53 + k" by (rule powi_less_exp)
  with k have jk: "j \<le> k" by (simp add: j_def)
  have "x / 2 powi j = of_int m * 2 powi (k - j)"
    by (simp add: x power_int_diff)
  also have "\<dots> = of_int m * 2 ^ nat (k - j)"
    using jk by (simp add: power_int_nonneg_exp)
  also have "\<dots> = of_int (m * 2 ^ nat (k - j))" by simp
  finally have "round_half_even (x / 2 powi j) = m * 2 ^ nat (k - j)"
    by (simp only: round_half_even_of_int)
  then have "round_double x = of_int (m * 2 ^ nat (k - j)) * 2 powi j"
    using False by (simp add: round_double_def Let_def j_def)
  also have "\<dots> = of_int m * (2 powi (k - j) * 2 powi j)"
    using jk by (simp add: power_int_nonneg_exp)
  also have "\<dots> = x" by (simp add: x power_int_add [symmetric])
  finally show ?thesis .
qed

lemma round_double_of_int: "\<bar>m\<bar> < 2 ^ 53 \<Longrightarrow> round_double (of_int m) = of_int m"
  using round_double_exact [of "of_int m" m 0] by simp

lemma round_double_half: "\<bar>m\<bar> < 2 ^ 53 \<Longrightarrow> round_double (of_int m / 2) = of_int m / 2"
  using round_double_exact [of "of_int m / 2" m "- 1"] by (simp add: power_int_minus)

lemma to_float_Finite:
  "\<bar>round_double x\<bar> < 2 ^ 1024 \<Longrightarrow> to_float x = Finite (round_double x)"
  by (auto simp add: to_float_def Let_def)


lemma py_truediv_two:
  assumes "\<bar>c\<bar> < 2 ^ 53"
  shows "py_truediv c 2 = Inr (of_int c / 2)"
proof -
  have rd: "round_double (of_int c / 2) = of_int c / 2"
    using assms by (rule round_double_half)
  have "(of_int \<bar>c\<bar> :: rat) < of_int (2 ^ 53)" using assms by (simp only: of_int_less_iff)
  then have "\<bar>of_int c / 2 :: rat\<bar> < 2 ^ 1024" by simp
  then have "to_float (of_int c / 2) = Finite (of_int c / 2)"
    using to_float_Finite [of "of_int c / 2"] by (simp add: rd)
  then show ?thesis by (simp add: py_truediv_def)
qed

lemma py_int_half:
  "py_int (Finite (of_int k / 2)) = Inr (if 0 \<le> k then k div 2 else - ((- k) div 2))"
proof -
  have fl: "\<lfloor>(of_int k :: rat) / 2\<rfloor> = k div 2"
    using floor_divide_of_int_eq [of k 2, where ?'a = rat] by simp
  have "\<lceil>(of_int k :: rat) / 2\<rceil> = - \<lfloor>(of_int (- k) :: rat) / 2\<rfloor>"
    by (simp add: ceiling_def)
  also have "\<dots> = - ((- k) div 2)"
    using floor_divide_of_int_eq [of "- k" 2, where ?'a = rat] by simp
  finally have ce: "\<lceil>(of_int k :: rat) / 2\<rceil> = - ((- k) div 2)" .
  show ?thesis
    by (simp add: py_int_def fl ce zero_le_divide_iff)
qed

lemma half_gap_eq:
  assumes c: "\<bar>c\<bar> < 2 ^ 52" and d: "\<bar>d\<bar> < 2 ^ 52"
  shows "half_gap c d = Inr (\<bar>c - d\<bar> div 2)"
proof -
  from c d have k: "\<bar>c - d\<bar> < 2 ^ 53" by simp
  from c have c': "\<bar>c\<bar> < 2 ^ 53" by simp
  from d have d': "\<bar>d\<bar> < 2 ^ 53" by simp
  have diff: "(of_int c :: rat) / 2 - of_int d / 2 = of_int (c - d) / 2"
    by (simp add: diff_divide_distrib)
  have rd: "round_double (of_int (c - d) / 2) = of_int (c - d) / 2"
    using k by (rule round_double_half)
  have "(of_int \<bar>c - d\<bar> :: rat) < of_int (2 ^ 53)" using k by (simp only: of_int_less_iff)
  then have "\<bar>of_int (c - d) / 2 :: rat\<bar> < 2 ^ 1024" by simp
  then have sub: "float_sub (of_int c / 2) (of_int d / 2) = Finite (of_int (c - d) / 2)"
    using to_float_Finite [of "of_int (c - d) / 2"] by (simp only: float_sub_def diff rd)
  have "half_gap c d = Inr \<bar>if 0 \<le> c - d then (c - d) div 2 else - ((- (c - d)) div 2)\<bar>"
    by (simp only: half_gap_def py_truediv_two [OF c'] py_truediv_two [OF d'] sub py_int_half
        sum.case)
  also have "\<bar>if 0 \<le> c - d then (c - d) div 2 else - ((- (c - d)) div 2)\<bar> = \<bar>c - d\<bar> div 2"
    by (cases "0 \<le> c - d") (simp_all add: abs_if)
  finally show ?thesis .
qed

lemma round_double_nonneg_bounds:
  assumes "x = 0 \<or> 2 powi (- 1022) \<le> x"
  shows "x - x / 2 ^ 53 \<le> round_double x" and "round_double x \<le> x + x / 2 ^ 53"
proof -
  have x0: "0 \<le> x"
  proof (cases "x = 0")
    case True then show ?thesis by simp
  next
    case False
    with assms have "(2::rat) powi (- 1022) \<le> x" by simp
    moreover have "(0::rat) < 2 powi (- 1022)" by (rule zero_less_power_int) simp
    ultimately show ?thesis by linarith
  qed
  then have "x = 0 \<or> 2 powi (- 1022) \<le> \<bar>x\<bar>" using assms by simp
  then have "\<bar>round_double x - x\<bar> \<le> \<bar>x\<bar> / 2 ^ 53" by (rule round_double_relative_error)
  with x0 show "x - x / 2 ^ 53 \<le> round_double x" and "round_double x \<le> x + x / 2 ^ 53"
    by linarith+
qed

lemma tiny_power: "(2::rat) powi (- 1022) \<le> 1 / 2 ^ 26"
proof -
  have "(2::rat) powi (- 1022) \<le> 2 powi (- 26)"
    by (rule power_int_increasing) simp_all
  then show ?thesis by (simp add: power_int_minus_divide)
qed

lemma scaled_side:
  assumes a: "0 \<le> a" "a < 2 ^ 24" and n: "0 \<le> n" "n < 2 ^ 24" and d: "0 < d" "d < 2 ^ 24"
  shows "\<exists>r k. py_truediv n d = Inr r \<and> int_of_product a r = Inr k
           \<and> 0 \<le> k \<and> a * n - d \<le> k * d \<and> k * d \<le> a * n"
proof -
  define A N D :: rat where "A = of_int a" and "N = of_int n" and "D = of_int d"
  define x where "x = N / D"
  define r where "r = round_double x"
  define y where "y = A * r"
  define p where "p = round_double y"
  have A: "0 \<le> A" "A < 2 ^ 24" using a by (simp_all add: A_def)
  have N: "0 \<le> N" "N < 2 ^ 24" using n by (simp_all add: N_def)
  have D: "1 \<le> D" "D < 2 ^ 24" using d by (simp_all add: D_def)
  have x0: "0 \<le> x" using N D by (simp add: x_def)
  have xD: "x * D = N" using D by (simp add: x_def)
  have xle: "x \<le> N" using N D by (simp add: x_def divide_le_eq mult_le_cancel_left1)
  have xsmall: "x = 0 \<or> 1 / 2 ^ 24 \<le> x"
  proof (cases "n = 0")
    case True then show ?thesis by (simp add: x_def N_def)
  next
    case False
    with n have "1 \<le> n" by simp
    then have "1 \<le> N" by (simp add: N_def)
    then have "1 / D \<le> N / D" using D by (simp add: divide_right_mono)
    moreover have "1 / 2 ^ 24 \<le> 1 / D" using D by (simp add: frac_le)
    ultimately have "1 / 2 ^ 24 \<le> N / D" by linarith
    then show ?thesis by (simp add: x_def)
  qed
  have xr: "x = 0 \<or> 2 powi (- 1022) \<le> x" using xsmall tiny_power by auto
  note R = round_double_nonneg_bounds [OF xr, folded r_def]
  have r0: "0 \<le> r" using R(1) x0 by simp
  have rfin: "\<bar>r\<bar> < 2 ^ 1024" using R(2) r0 xle N by simp
  have truediv: "py_truediv n d = Inr r"
    using d rfin to_float_Finite [of x] by (simp add: py_truediv_def x_def N_def D_def r_def)
  have y0: "0 \<le> y" using A r0 by (simp add: y_def)
  have ysmall: "y = 0 \<or> 1 / 2 ^ 26 \<le> y"
  proof (cases "a = 0 \<or> x = 0")
    case True
    then show ?thesis using R r0 by (auto simp add: y_def A_def)
  next
    case False
    with a have "1 \<le> a" by simp
    then have A1: "1 \<le> A" by (simp add: A_def)
    from False xsmall have "1 / 2 ^ 24 \<le> x" by simp
    with R(1) have "1 / 2 ^ 26 \<le> r" by simp
    also have "r \<le> A * r" using A1 r0 by (simp add: mult_le_cancel_right1)
    finally show ?thesis by (simp add: y_def)
  qed
  have yr: "y = 0 \<or> 2 powi (- 1022) \<le> y" using ysmall tiny_power by auto
  note P = round_double_nonneg_bounds [OF yr, folded p_def]
  have p0: "0 \<le> p" using P(1) y0 by simp
  have ylo: "A * x - A * x / 2 ^ 53 \<le> y"
    using mult_left_mono [OF R(1) A(1)] by (simp add: y_def algebra_simps)
  have yhi: "y \<le> A * x + A * x / 2 ^ 53"
    using mult_left_mono [OF R(2) A(1)] by (simp add: y_def algebra_simps)
  define t where "t = A * x"
  have t0: "0 \<le> t" using A x0 by (simp add: t_def)
  have tD: "t * D = A * N" using xD by (simp add: t_def mult.assoc)
  have tle: "t < 2 ^ 48"
  proof -
    have "t \<le> A * N" using xle A by (simp add: t_def mult_left_mono)
    also have "\<dots> \<le> 2 ^ 24 * 2 ^ 24" using A N by (intro mult_mono) simp_all
    finally have "t \<le> 2 ^ 48" by simp
    have "A * N < 2 ^ 24 * 2 ^ 24" 
    proof (cases "A = 0")
      case True then show ?thesis by simp
    next
      case False
      with A have "0 < A" by simp
      then have "A * N < A * 2 ^ 24" using N by simp
      also have "\<dots> \<le> 2 ^ 24 * 2 ^ 24" using A by simp
      finally show ?thesis .
    qed
    with \<open>t \<le> A * N\<close> show ?thesis by simp
  qed
  have phi: "p \<le> t + t / 2 ^ 50" using P(2) yhi t0 by (simp add: t_def)
  have plo: "t - t / 2 ^ 50 \<le> p" using P(1) ylo t0 by (simp add: t_def)
  have AN: "A * N < 2 ^ 48"
  proof (cases "A = 0")
    case True then show ?thesis by simp
  next
    case False
    with A have "0 < A" by simp
    then have "A * N < A * 2 ^ 24" using N by simp
    also have "\<dots> \<le> 2 ^ 24 * 2 ^ 24" using A by simp
    finally show ?thesis by simp
  qed
  have AN0: "0 \<le> A * N" using A N by simp
  define k where "k = \<lfloor>p\<rfloor>"
  have k0: "0 \<le> k" using p0 by (simp add: k_def)
  have kp: "of_int k \<le> p" "p < of_int k + 1" by (simp_all add: k_def) linarith
  have pfin: "\<bar>p\<bar> < 2 ^ 1024" using phi p0 tle t0 by simp
  have ra: "round_double (of_int a) = of_int a"
    using a by (intro round_double_of_int) simp
  have "\<bar>of_int a :: rat\<bar> < 2 ^ 1024" using A by (simp add: A_def)
  then have fa: "py_float a = Inr A"
    using to_float_Finite [of "of_int a"] by (simp add: py_float_def ra A_def)
  have "float_mul A r = Finite p"
    using pfin to_float_Finite [of y] by (simp add: float_mul_def y_def p_def)
  then have product: "int_of_product a r = Inr k"
    using p0 by (simp add: int_of_product_def fa py_int_def k_def)
  have pDhi: "p * D \<le> A * N + A * N / 2 ^ 50"
    using mult_right_mono [OF phi, of D] D by (simp add: algebra_simps tD [symmetric])
  have pDlo: "A * N - A * N / 2 ^ 50 \<le> p * D"
    using mult_right_mono [OF plo, of D] D by (simp add: algebra_simps tD [symmetric])
  have kDle: "of_int k * D \<le> p * D"
    using kp(1) D by (intro mult_right_mono) simp_all
  have kDgt: "p * D < of_int k * D + D"
    using mult_strict_right_mono [OF kp(2), of D] D by (simp add: algebra_simps)
  have "of_int k * D < A * N + 1" using kDle pDhi AN AN0 by simp
  then have "(of_int (k * d) :: rat) < of_int (a * n + 1)"
    by (simp add: A_def N_def D_def)
  then have upper: "k * d \<le> a * n" by (simp only: of_int_less_iff)
  have "A * N - 1 - D < of_int k * D" using kDgt pDlo AN AN0 by simp
  then have "(of_int (a * n - 1 - d) :: rat) < of_int (k * d)"
    by (simp add: A_def N_def D_def)
  then have lower: "a * n - d \<le> k * d" by (simp only: of_int_less_iff)
  from truediv product k0 lower upper show ?thesis by blast
qed

section \<open>PdfToImage: indexing\<close>

text \<open>
  C9: the page lookup accepts a negative index: for a document of N pages and an index i
  with -N <= i < 0 it returns the page at position N + i instead of raising.
\<close>

theorem getitem_negative_index:
  "- len self \<le> i \<Longrightarrow> i < 0 \<Longrightarrow> getitem self i = Inr (images self ! nat (len self + i))"
  by (simp add: getitem_def len_def Let_def)

theorem getitem_negative_index_witness:
  "- len \<lparr>images = [\<lparr>image_width = 1, image_height = 2, image_data = [7]\<rparr>,
                      \<lparr>image_width = 3, image_height = 4, image_data = [8]\<rparr>]\<rparr> \<le> - 1
   \<and> (- 1 :: int) < 0
   \<and> getitem \<lparr>images = [\<lparr>image_width = 1, image_height = 2, image_data = [7]\<rparr>,
                         \<lparr>image_width = 3, image_height = 4, image_data = [8]\<rparr>]\<rparr> (- 1)
       = Inr \<lparr>image_width = 3, image_height = 4, image_data = [8]\<rparr>"
  using getitem_negative_index
    [of "\<lparr>images = [\<lparr>image_width = 1, image_height = 2, image_data = [7]\<rparr>,
                     \<lparr>image_width = 3, image_height = 4, image_data = [8]\<rparr>]\<rparr>" "- 1"]
  by (simp add: len_def)

section \<open>Canvas: the fit routine\<close>

text \<open>
  C5: when the natural size (w, h) fits the canvas on both axes, the fit routine returns
  exactly (w, h).
\<close>

theorem fit_returns_natural_size:
  "w \<le> canvas_width self \<Longrightarrow> h \<le> canvas_height self \<Longrightarrow>
   calculate_size_of_page self w h = Inr (w, h)"
  by (simp add: calculate_size_of_page_def)

theorem fit_returns_natural_size_witness:
  "(300::int) \<le> canvas_width (Canvas_init
       \<lparr>pixmap_width = 300, pixmap_height = 200, pixmap_data = [], painted = []\<rparr> 700 800)
   \<and> (200::int) \<le> canvas_height (Canvas_init
       \<lparr>pixmap_width = 300, pixmap_height = 200, pixmap_data = [], painted = []\<rparr> 700 800)
   \<and> calculate_size_of_page (Canvas_init
       \<lparr>pixmap_width = 300, pixmap_height = 200, pixmap_data = [], painted = []\<rparr> 700 800)
       300 200 = Inr (300, 200)"
  using fit_returns_natural_size
    [of 300 "Canvas_init
       \<lparr>pixmap_width = 300, pixmap_height = 200, pixmap_data = [], painted = []\<rparr> 700 800" 200]
  by (simp add: Canvas_init_def)

lemma py_truediv_exact:
  assumes b: "b \<noteq> 0" and x: "(of_int a :: rat) / of_int b = of_int m * 2 powi k"
    and m: "\<bar>m\<bar> < 2 ^ 53" and k: "- 1074 \<le> k" and fin: "\<bar>of_int a / of_int b :: rat\<bar> < 2 ^ 1024"
  shows "py_truediv a b = Inr (of_int a / of_int b)"
proof -
  have "round_double (of_int a / of_int b) = of_int a / of_int b"
    using x m k by (rule round_double_exact)
  then have "to_float (of_int a / of_int b) = Finite (of_int a / of_int b)"
    using fin to_float_Finite [of "of_int a / of_int b"] by simp
  then show ?thesis using b by (simp add: py_truediv_def)
qed

lemma int_of_product_exact:
  assumes c: "\<bar>c\<bar> < 2 ^ 53" and n: "of_int c * r = of_int n" and nb: "\<bar>n\<bar> < 2 ^ 53"
  shows "int_of_product c r = Inr n"
proof -
  have rc: "round_double (of_int c) = of_int c" using c by (rule round_double_of_int)
  have "(of_int \<bar>c\<bar> :: rat) < of_int (2 ^ 53)" using c by (simp only: of_int_less_iff)
  then have "\<bar>of_int c :: rat\<bar> < 2 ^ 1024" by simp
  then have fc: "py_float c = Inr (of_int c)"
    using to_float_Finite [of "of_int c"] by (simp add: py_float_def rc)
  have rn: "round_double (of_int n) = of_int n" using nb by (rule round_double_of_int)
  have "(of_int \<bar>n\<bar> :: rat) < of_int (2 ^ 53)" using nb by (simp only: of_int_less_iff)
  then have "\<bar>of_int n :: rat\<bar> < 2 ^ 1024" by simp
  then have "float_mul (of_int c) r = Finite (of_int n)"
    using to_float_Finite [of "of_int n"] by (simp add: float_mul_def n rn)
  then show ?thesis by (simp add: int_of_product_def fc py_int_def)
qed

lemma calculate_size_of_page_cases:
  assumes wp: "0 \<le> wp" "wp < 2 ^ 24" and hp: "0 \<le> hp" "hp < 2 ^ 24"
    and wc: "0 \<le> canvas_width self" "canvas_width self < 2 ^ 24"
    and hc: "0 \<le> canvas_height self" "canvas_height self < 2 ^ 24"
  shows "\<exists>w h. calculate_size_of_page self wp hp = Inr (w, h) \<and> 0 \<le> w \<and> 0 \<le> h \<and>
           (if wp \<le> canvas_width self \<and> hp \<le> canvas_height self then w = wp \<and> h = hp
            else if hp < wp
            then w = canvas_width self \<and> canvas_width self * hp - wp \<le> h * wp
                 \<and> h * wp \<le> canvas_width self * hp
            else h = canvas_height self \<and> canvas_height self * wp - hp \<le> w * hp
                 \<and> w * hp \<le> canvas_height self * wp)"
proof (cases "wp \<le> canvas_width self \<and> hp \<le> canvas_height self")
  case True
  then show ?thesis using wp hp by (simp add: calculate_size_of_page_def)
next
  case outside: False
  show ?thesis
  proof (cases "hp < wp")
    case True
    then have "0 < wp" using hp by simp
    from scaled_side [OF wc hp this wp(2)] obtain r k
      where "py_truediv hp wp = Inr r" and "int_of_product (canvas_width self) r = Inr k"
        and "0 \<le> k" and "canvas_width self * hp - wp \<le> k * wp"
        and "k * wp \<le> canvas_width self * hp"
      by blast
    then show ?thesis using outside True wc by (auto simp add: calculate_size_of_page_def Let_def)
  next
    case False
    have "0 < hp"
    proof (rule ccontr)
      assume "\<not> 0 < hp"
      with hp False wp have "hp = 0" and "wp = 0" by simp_all
      with outside wc hc show False by simp
    qed
    from scaled_side [OF hc wp this hp(2)] obtain r k
      where "py_truediv wp hp = Inr r" and "int_of_product (canvas_height self) r = Inr k"
        and "0 \<le> k" and "canvas_height self * wp - hp \<le> k * hp"
        and "k * hp \<le> canvas_height self * wp"
      by blast
    then show ?thesis using outside False hc by (auto simp add: calculate_size_of_page_def Let_def)
  qed
qed

text \<open>
  C3: the displayed size is a scale-down of the natural size, exceeding it on neither axis.
  The routine, which by its own description computes a size that fits the window, scales
  every image that does not fit against one side of the canvas, whatever the other side:
  a 4 by 2 image on an 8 by 1 canvas is shown 8 by 4, twice its natural size, and a 700 by
  900 page on a 680 by 1000 canvas is shown 777 by 1000, wider than the page and wider than
  the canvas.
\<close>

theorem fit_exceeds_page_and_canvas:
  "calculate_size_of_page (Canvas_init blank_pixmap 8 1) 4 2 = Inr (8, 4)
   \<and> calculate_size_of_page (Canvas_init blank_pixmap 680 1000) 700 900 = Inr (777, 1000)"
proof -
  have ratio: "py_truediv 2 4 = Inr (of_int 2 / of_int 4)"
    by (rule py_truediv_exact [where m = 1 and k = "- 1"]) (simp_all add: power_int_minus)
  have product: "int_of_product 8 (2 / 4) = Inr 4"
    by (rule int_of_product_exact) simp_all
  have small: "calculate_size_of_page (Canvas_init blank_pixmap 8 1) 4 2 = Inr (8, 4)"
    using ratio product by (simp add: calculate_size_of_page_def Canvas_init_def)
  from calculate_size_of_page_cases [of 700 900 "Canvas_init blank_pixmap 680 1000"]
  obtain w h where size: "calculate_size_of_page (Canvas_init blank_pixmap 680 1000) 700 900
                           = Inr (w, h)"
    and h: "h = 1000" and lower: "1000 * 700 - 900 \<le> w * 900" and upper: "w * 900 \<le> 1000 * 700"
    by (auto simp add: Canvas_init_def)
  from lower have "776 < w" by linarith
  moreover from upper have "w < 778" by linarith
  ultimately have "w = 777" by simp
  with size h small show ?thesis by simp
qed

section \<open>Canvas: the centring offset\<close>

text \<open>
  C6, as stated: the offset is applied only on x when the image is narrower than the
  canvas but taller, and only on y when it is wider but shorter. The routine chooses the
  axis by the image's own orientation instead. A 3 by 4 page on a 2 by 8 canvas is shown
  6 by 8, wider than the canvas and not taller, and is offset on x by 2; a 6 by 6 image on
  an 8 by 2 canvas, narrower and taller, is offset on y by 2.
\<close>

theorem offset_axis_follows_orientation:
  "calculate_size_of_page (Canvas_init blank_pixmap 2 8) 3 4 = Inr (6, 8)
   \<and> calculate_zero_coordinates (Canvas_init blank_pixmap 2 8) 6 8 = Inr (2, 0)
   \<and> calculate_zero_coordinates (Canvas_init blank_pixmap 8 2) 6 6 = Inr (0, 2)"
proof -
  have ratio: "py_truediv 3 4 = Inr (of_int 3 / of_int 4)"
    by (rule py_truediv_exact [where m = 3 and k = "- 2"]) (simp_all add: power_int_minus)
  have product: "int_of_product 8 (3 / 4) = Inr 6"
    by (rule int_of_product_exact) simp_all
  have size: "calculate_size_of_page (Canvas_init blank_pixmap 2 8) 3 4 = Inr (6, 8)"
    using ratio product by (simp add: calculate_size_of_page_def Canvas_init_def)
  have gap: "half_gap 2 6 = Inr 2"
    using half_gap_eq [of 2 6] by simp
  have first: "calculate_zero_coordinates (Canvas_init blank_pixmap 2 8) 6 8 = Inr (2, 0)"
    using gap by (simp add: calculate_zero_coordinates_def Canvas_init_def)
  have second: "calculate_zero_coordinates (Canvas_init blank_pixmap 8 2) 6 6 = Inr (0, 2)"
    using gap by (simp add: calculate_zero_coordinates_def Canvas_init_def)
  from size first second show ?thesis by simp
qed

text \<open>
  C6, amended: for sizes below \<open>2^52\<close> the offset on an axis is \<open>|canvas - image| div 2\<close>,
  the truncation of \<open>|canvas/2 - image/2|\<close>. It is applied on both axes when the image
  fits both, and then the image's centre is within one pixel of the canvas's on each axis;
  only on x when the image does not fit and is taller than wide; only on y when it does
  not fit and is at least as wide as tall.
\<close>

theorem centring_offset:
  assumes "\<bar>canvas_width self\<bar> < 2 ^ 52" and "\<bar>canvas_height self\<bar> < 2 ^ 52"
    and "\<bar>w\<bar> < 2 ^ 52" and "\<bar>h\<bar> < 2 ^ 52"
  shows "calculate_zero_coordinates self w h =
           Inr (if w \<le> canvas_width self \<and> h \<le> canvas_height self
                then (\<bar>canvas_width self - w\<bar> div 2, \<bar>canvas_height self - h\<bar> div 2)
                else if w < h then (\<bar>canvas_width self - w\<bar> div 2, 0)
                else (0, \<bar>canvas_height self - h\<bar> div 2))
         \<and> (w \<le> canvas_width self \<longrightarrow>
              \<bar>canvas_width self - (2 * (\<bar>canvas_width self - w\<bar> div 2) + w)\<bar> \<le> 1)
         \<and> (h \<le> canvas_height self \<longrightarrow>
              \<bar>canvas_height self - (2 * (\<bar>canvas_height self - h\<bar> div 2) + h)\<bar> \<le> 1)"
proof -
  have x: "half_gap (canvas_width self) w = Inr (\<bar>canvas_width self - w\<bar> div 2)"
    using assms(1,3) by (rule half_gap_eq)
  have y: "half_gap (canvas_height self) h = Inr (\<bar>canvas_height self - h\<bar> div 2)"
    using assms(2,4) by (rule half_gap_eq)
  have offset: "calculate_zero_coordinates self w h =
           Inr (if w \<le> canvas_width self \<and> h \<le> canvas_height self
                then (\<bar>canvas_width self - w\<bar> div 2, \<bar>canvas_height self - h\<bar> div 2)
                else if w < h then (\<bar>canvas_width self - w\<bar> div 2, 0)
                else (0, \<bar>canvas_height self - h\<bar> div 2))"
    by (simp add: calculate_zero_coordinates_def x y)
  have cx: "w \<le> canvas_width self \<longrightarrow>
              \<bar>canvas_width self - (2 * (\<bar>canvas_width self - w\<bar> div 2) + w)\<bar> \<le> 1"
    by presburger
  have cy: "h \<le> canvas_height self \<longrightarrow>
              \<bar>canvas_height self - (2 * (\<bar>canvas_height self - h\<bar> div 2) + h)\<bar> \<le> 1"
    by presburger
  from offset cx cy show ?thesis by blast
qed

theorem centring_offset_witness:
  "\<bar>canvas_width blank_canvas\<bar> < 2 ^ 52 \<and> \<bar>canvas_height blank_canvas\<bar> < 2 ^ 52
   \<and> \<bar>301 :: int\<bar> < 2 ^ 52 \<and> \<bar>200 :: int\<bar> < 2 ^ 52
   \<and> calculate_zero_coordinates blank_canvas 301 200 = Inr (199, 300)
   \<and> \<bar>canvas_width blank_canvas - (2 * 199 + 301)\<bar> \<le> 1
   \<and> \<bar>canvas_height blank_canvas - (2 * 300 + 200)\<bar> \<le> 1"
  using centring_offset [of blank_canvas 301 200]
  by (simp add: blank_canvas_def Canvas_init_def)

section \<open>Canvas: the drag\<close>

lemma deliver_release: "kind event = MouseButtonRelease \<Longrightarrow> deliver self event = self"
  by (simp add: deliver_def mouseReleaseEvent_def)



text \<open>
  C1: the release of the left button ends a drag by committing the rectangle and resetting
  both points. The class names its handler \<open>mouseRleaseEvent\<close>, so a release reaches the
  inherited handler: after a press at (10, 10), a move to (20, 20) and the release, both
  points are still set and nothing has been painted into the pixmap. The misnamed handler,
  called with that release, would do nothing either, the left button being up.
\<close>

theorem release_leaves_drag_open:
  "deliver_all blank_canvas
     [left_press (QPoint 10 10), left_move (QPoint 20 20), left_release (QPoint 20 20)]
   = blank_canvas\<lparr>begin_point := QPoint 10 10, destination := QPoint 20 20\<rparr>
   \<and> mouseRleaseEvent normalized
       (blank_canvas\<lparr>begin_point := QPoint 10 10, destination := QPoint 20 20\<rparr>)
       (left_release (QPoint 20 20))
     = blank_canvas\<lparr>begin_point := QPoint 10 10, destination := QPoint 20 20\<rparr>"
  by (simp add: deliver_def left_press_def left_move_def left_release_def mousePressEvent_def
      mouseMoveEvent_def mouseReleaseEvent_def mouseRleaseEvent_def blank_canvas_def
      Canvas_init_def)

text \<open>
  C8: a drag from p to q and the drag from q to p commit the same rectangle. Neither
  commits any: with p = (1, 1) and q = (5, 5) the pixmap has no rectangle painted into it
  after either drag.
\<close>

theorem both_drags_commit_nothing:
  "painted (pixmap (deliver_all blank_canvas
     [left_press (QPoint 1 1), left_move (QPoint 5 5), left_release (QPoint 5 5)])) = []
   \<and> painted (pixmap (deliver_all blank_canvas
     [left_press (QPoint 5 5), left_move (QPoint 1 1), left_release (QPoint 1 1)])) = []"
  by (simp add: deliver_def left_press_def left_move_def left_release_def mousePressEvent_def
      mouseMoveEvent_def mouseReleaseEvent_def blank_canvas_def blank_pixmap_def
      Canvas_init_def)




section \<open>Canvas: the repaint during a drag\<close>

lemma moves_keep_begin:
  "list_all (\<lambda>m. kind m = MouseMove) moves \<Longrightarrow>
   begin_point (deliver_all self moves) = begin_point self
   \<and> pixmap (deliver_all self moves) = pixmap self
   \<and> canvas_width (deliver_all self moves) = canvas_width self
   \<and> canvas_height (deliver_all self moves) = canvas_height self"
proof (induction moves arbitrary: self)
  case Nil
  then show ?case by simp
next
  case (Cons m moves)
  then have move: "kind m = MouseMove" and rest: "list_all (\<lambda>m. kind m = MouseMove) moves"
    by simp_all
  have step: "begin_point (deliver self m) = begin_point self
      \<and> pixmap (deliver self m) = pixmap self
      \<and> canvas_width (deliver self m) = canvas_width self
      \<and> canvas_height (deliver self m) = canvas_height self"
    using move by (simp add: deliver_def mouseMoveEvent_def)
  from Cons.IH [OF rest, of "deliver self m"] step show ?case by simp
qed

lemma paintEvent_without_overlay:
  assumes null: "isNull (begin_point self)"
    and pw: "0 \<le> pixmap_width (pixmap self)" "pixmap_width (pixmap self) < 2 ^ 24"
    and ph: "0 \<le> pixmap_height (pixmap self)" "pixmap_height (pixmap self) < 2 ^ 24"
    and wc: "0 \<le> canvas_width self" "canvas_width self < 2 ^ 24"
    and hc: "0 \<le> canvas_height self" "canvas_height self < 2 ^ 24"
  shows "\<exists>x y w h. paintEvent normalized self = Inr [DrawPixmap x y w h (pixmap self)]"
proof -
  from calculate_size_of_page_cases [OF pw ph wc hc] obtain w h
    where size: "calculate_size_of_page self (pixmap_width (pixmap self))
                   (pixmap_height (pixmap self)) = Inr (w, h)"
      and w0: "0 \<le> w" and h0: "0 \<le> h"
      and shape: "if pixmap_width (pixmap self) \<le> canvas_width self
                     \<and> pixmap_height (pixmap self) \<le> canvas_height self
            then w = pixmap_width (pixmap self) \<and> h = pixmap_height (pixmap self)
            else if pixmap_height (pixmap self) < pixmap_width (pixmap self)
            then w = canvas_width self
                 \<and> canvas_width self * pixmap_height (pixmap self) - pixmap_width (pixmap self)
                     \<le> h * pixmap_width (pixmap self)
                 \<and> h * pixmap_width (pixmap self) \<le> canvas_width self * pixmap_height (pixmap self)
            else h = canvas_height self
                 \<and> canvas_height self * pixmap_width (pixmap self) - pixmap_height (pixmap self)
                     \<le> w * pixmap_height (pixmap self)
                 \<and> w * pixmap_height (pixmap self) \<le> canvas_height self * pixmap_width (pixmap self)"
    by blast
  have prod: "a * n < 2 ^ 48" if "0 \<le> a" "a < 2 ^ 24" "0 \<le> n" "n < 2 ^ 24" for a n :: int
  proof -
    have "a * n \<le> (2 ^ 24 - 1) * (2 ^ 24 - 1)"
      using that by (intro mult_mono) simp_all
    then show ?thesis by simp
  qed
  have side: "k < 2 ^ 48"
    if "k * d \<le> a * n" "0 \<le> k" "0 < d" "0 \<le> a" "a < 2 ^ 24" "0 \<le> n" "n < 2 ^ 24"
    for k d a n :: int
  proof -
    have "k * 1 \<le> k * d" using that(2,3) by (intro mult_left_mono) simp_all
    with that(1) prod [OF that(4-7)] show ?thesis by simp
  qed
  have bound: "w < 2 ^ 48 \<and> h < 2 ^ 48"
  proof (cases "pixmap_width (pixmap self) \<le> canvas_width self
                     \<and> pixmap_height (pixmap self) \<le> canvas_height self")
    case True
    with shape pw ph show ?thesis by simp
  next
    case outside: False
    show ?thesis
    proof (cases "pixmap_height (pixmap self) < pixmap_width (pixmap self)")
      case True
      with outside shape have "w = canvas_width self"
        and "h * pixmap_width (pixmap self) \<le> canvas_width self * pixmap_height (pixmap self)"
        by auto
      moreover have "0 < pixmap_width (pixmap self)" using True ph by simp
      ultimately show ?thesis using side [of h _ "canvas_width self"] h0 wc ph by simp
    next
      case False
      with outside shape have "h = canvas_height self"
        and le: "w * pixmap_height (pixmap self) \<le> canvas_height self * pixmap_width (pixmap self)"
        by auto
      moreover have "0 < pixmap_height (pixmap self)"
      proof (rule ccontr)
        assume "\<not> 0 < pixmap_height (pixmap self)"
        with ph pw False have "pixmap_height (pixmap self) = 0" and "pixmap_width (pixmap self) = 0"
          by simp_all
        with outside wc hc show False by simp
      qed
      ultimately show ?thesis using side [of w _ "canvas_height self"] w0 hc pw by simp
    qed
  qed
  have "\<bar>canvas_width self\<bar> < 2 ^ 52" "\<bar>canvas_height self\<bar> < 2 ^ 52"
    "\<bar>w\<bar> < 2 ^ 52" "\<bar>h\<bar> < 2 ^ 52"
    using wc hc w0 h0 bound by simp_all
  then have x: "half_gap (canvas_width self) w = Inr (\<bar>canvas_width self - w\<bar> div 2)"
    and y: "half_gap (canvas_height self) h = Inr (\<bar>canvas_height self - h\<bar> div 2)"
    by (simp_all add: half_gap_eq)
  have "\<exists>x y. calculate_zero_coordinates self w h = Inr (x, y)"
    by (simp add: calculate_zero_coordinates_def x y)
  then show ?thesis using size null by (auto simp add: paintEvent_def)
qed

text \<open>
  C10: the null point is the origin. A press of the left button at (0, 0) stores a begin
  point that tests as null, the moves that follow leave it there, and the repaint, which
  draws the rubber band only when neither point is null, draws the page and nothing else
  for the whole drag. The sizes are those a pixmap and a widget can have.
\<close>

theorem origin_press_draws_no_overlay:
  assumes "LeftButton \<in> buttons press" and "pos press = QPoint 0 0"
    and "list_all (\<lambda>m. kind m = MouseMove) moves"
    and "0 \<le> pixmap_width (pixmap self)" "pixmap_width (pixmap self) < 2 ^ 24"
    and "0 \<le> pixmap_height (pixmap self)" "pixmap_height (pixmap self) < 2 ^ 24"
    and "0 \<le> canvas_width self" "canvas_width self < 2 ^ 24"
    and "0 \<le> canvas_height self" "canvas_height self < 2 ^ 24"
  shows "isNull (begin_point (deliver_all (mousePressEvent self press) moves))
         \<and> (\<exists>x y w h. paintEvent normalized (deliver_all (mousePressEvent self press) moves)
                        = Inr [DrawPixmap x y w h (pixmap self)])"
proof -
  define dragging where "dragging = deliver_all (mousePressEvent self press) moves"
  have pressed: "begin_point (mousePressEvent self press) = QPoint 0 0
      \<and> pixmap (mousePressEvent self press) = pixmap self
      \<and> canvas_width (mousePressEvent self press) = canvas_width self
      \<and> canvas_height (mousePressEvent self press) = canvas_height self"
    using assms(1,2) by (simp add: mousePressEvent_def)
  with moves_keep_begin [OF assms(3), of "mousePressEvent self press"]
  have kept: "begin_point dragging = QPoint 0 0" "pixmap dragging = pixmap self"
    "canvas_width dragging = canvas_width self" "canvas_height dragging = canvas_height self"
    by (simp_all add: dragging_def)
  have null: "isNull (begin_point dragging)" by (simp add: kept isNull_def)
  have "\<exists>x y w h. paintEvent normalized dragging = Inr [DrawPixmap x y w h (pixmap dragging)]"
    using null assms(4-11) by (intro paintEvent_without_overlay) (simp_all add: kept)
  with null show ?thesis by (simp add: kept dragging_def [symmetric])
qed

theorem origin_press_draws_no_overlay_witness:
  "LeftButton \<in> buttons (left_press (QPoint 0 0)) \<and> pos (left_press (QPoint 0 0)) = QPoint 0 0
   \<and> list_all (\<lambda>m. kind m = MouseMove) [left_move (QPoint 30 40)]
   \<and> 0 \<le> pixmap_width (pixmap blank_canvas) \<and> pixmap_width (pixmap blank_canvas) < 2 ^ 24
   \<and> 0 \<le> pixmap_height (pixmap blank_canvas) \<and> pixmap_height (pixmap blank_canvas) < 2 ^ 24
   \<and> 0 \<le> canvas_width blank_canvas \<and> canvas_width blank_canvas < 2 ^ 24
   \<and> 0 \<le> canvas_height blank_canvas \<and> canvas_height blank_canvas < 2 ^ 24
   \<and> isNull (begin_point (deliver_all (mousePressEvent blank_canvas (left_press (QPoint 0 0)))
        [left_move (QPoint 30 40)]))
   \<and> (\<exists>x y w h. paintEvent (\<lambda>r. r)
          (deliver_all (mousePressEvent blank_canvas (left_press (QPoint 0 0)))
             [left_move (QPoint 30 40)])
        = Inr [DrawPixmap x y w h (pixmap blank_canvas)])"
  using origin_press_draws_no_overlay
    [of "left_press (QPoint 0 0)" "[left_move (QPoint 30 40)]" blank_canvas "\<lambda>r. r"]
  by (simp add: left_press_def left_move_def blank_canvas_def blank_pixmap_def Canvas_init_def)

section \<open>Window: opening and paging\<close>

text \<open>
  C2: at page 0 the previous button is disabled, at the last page the next button is
  disabled, and opening a document recomputes both. \<open>display_next_page\<close> and
  \<open>display_prev_page\<close> do set the two flags from the page index, \<open>select_file\<close> and
  \<open>display_page\<close> do not: opening a one-page document leaves the next button enabled on
  the last page, a click on it then raises IndexError, and opening a document from page 1
  of another leaves the previous button enabled on page 0. Each tuple is the page index,
  the page count, and the enabled flags of the previous and the next button.
\<close>

theorem open_leaves_buttons_stale:
  "map_sum fst
     (\<lambda>w. (current_page w, map_option len (pdf w), button_prev_page w, button_next_page w))
     (handle_all two_documents fresh_window [SelectFile ''one.pdf''])
   = Inr (0, Some 1, False, True)
   \<and> map_sum fst
     (\<lambda>w. (current_page w, map_option len (pdf w), button_prev_page w, button_next_page w))
     (handle_all two_documents fresh_window [SelectFile ''one.pdf'', NextPage])
   = Inl IndexError
   \<and> map_sum fst
     (\<lambda>w. (current_page w, map_option len (pdf w), button_prev_page w, button_next_page w))
     (handle_all two_documents fresh_window
        [SelectFile ''two.pdf'', NextPage, SelectFile ''two.pdf''])
   = Inr (0, Some 2, True, True)"
  by (simp add: handle_def select_file_def read_pdf_def PdfToImage_init_def two_documents_def
      display_page_def display_next_page_def getitem_def len_def fresh_window_def
      Window_init_def Let_def)

text \<open>
  C7, as stated: when the document cannot be decoded the error reaches the caller and the
  document, the file name and the page index are as before the attempt. The error does
  reach the caller, and the document is kept, but on page 1 of two.pdf a failed attempt
  to open bad.pdf leaves the file name bad.pdf and the page index 0.
\<close>

theorem failed_open_overwrites_fields:
  "map_sum fst (\<lambda>w. (filename w, current_page w, map_option len (pdf w)))
     (handle_all two_documents fresh_window [SelectFile ''two.pdf'', NextPage])
   = Inr (''two.pdf'', 1, Some 2)
   \<and> map_sum (\<lambda>(e, w). (e, filename w, current_page w, map_option len (pdf w))) (\<lambda>w. ())
     (handle_all two_documents fresh_window
        [SelectFile ''two.pdf'', NextPage, SelectFile ''bad.pdf''])
   = Inl (DecodeError, ''bad.pdf'', 0, Some 2)"
  by (simp add: handle_def select_file_def read_pdf_def PdfToImage_init_def two_documents_def
      display_page_def display_next_page_def getitem_def len_def fresh_window_def
      Window_init_def Let_def)

text \<open>
  C7, amended: when the rasterizer raises on the chosen path, \<open>select_file\<close> raises the
  same error, and the window is the one before the attempt but for the file name, which is
  the chosen path, and the page index, which is 0: the document, the canvas, the label and
  the buttons are unchanged.
\<close>

theorem failed_open_keeps_document:
  "convert_from_path chosen 200 = Inl e \<Longrightarrow> chosen \<noteq> [] \<Longrightarrow>
   select_file convert_from_path self chosen
   = Inl (e, self\<lparr>filename := chosen, current_page := 0\<rparr>)"
  by (simp add: select_file_def read_pdf_def PdfToImage_init_def)

theorem failed_open_keeps_document_witness:
  "two_documents ''bad.pdf'' 200 = Inl DecodeError \<and> ''bad.pdf'' \<noteq> []
   \<and> select_file two_documents fresh_window ''bad.pdf''
     = Inl (DecodeError, fresh_window\<lparr>filename := ''bad.pdf'', current_page := 0\<rparr>)"
proof -
  have raised: "two_documents ''bad.pdf'' 200 = Inl DecodeError"
    by (simp add: two_documents_def)
  have chosen: "''bad.pdf'' \<noteq> []"
    by simp
  from raised chosen
    failed_open_keeps_document [of two_documents "''bad.pdf''" DecodeError fresh_window]
  show ?thesis by simp
qed

end
